theory Spec2Isabelle
  imports Main
begin

section \<open>The runtime the library runs on: clock and timers\<close>

text \<open>
  The library reads the wall clock with \<^verbatim>\<open>Date.now()\<close> and schedules resumptions with
  \<^verbatim>\<open>setTimeout\<close> / \<^verbatim>\<open>clearTimeout\<close>. The clock is the sequence of readings the program
  will obtain (\<open>clock w k\<close> is the \<open>k\<close>-th reading, integer milliseconds), \<open>ticks\<close> counts the
  readings taken so far. \<open>scheduled\<close> maps the handle of every timer that is set and has
  neither fired nor been cleared to its delay. Times are integers and are computed exactly:
  this covers the readings and window lengths whose sums and differences the program's
  number type represents exactly (magnitudes up to \<open>2^53\<close>).
\<close>

record world =
  clock :: "nat \<Rightarrow> int"
  ticks :: nat
  next_timer :: nat
  scheduled :: "nat \<rightharpoonup> int"

definition Date_now :: "world \<Rightarrow> int \<times> world" where
  "Date_now w = (clock w (ticks w), w\<lparr>ticks := Suc (ticks w)\<rparr>)"

definition setTimeout :: "int \<Rightarrow> world \<Rightarrow> nat \<times> world" where
  "setTimeout ms w =
     (next_timer w,
      w\<lparr>next_timer := Suc (next_timer w), scheduled := (scheduled w)(next_timer w \<mapsto> ms)\<rparr>)"

definition clearTimeout :: "nat \<Rightarrow> world \<Rightarrow> world" where
  "clearTimeout h w = w\<lparr>scheduled := (scheduled w)(h := None)\<rparr>"

section \<open>initTimeUntilNextMinute (src/lib/index.ts, lines 42-65)\<close>

text \<open>
  The generator's local variables \<^verbatim>\<open>start\<close> and \<^verbatim>\<open>count\<close>. A generator object carries its
  arguments and, once its body has been entered, the locals it is suspended with; the body
  of a generator function does not run before the first \<^verbatim>\<open>next()\<close>, so a new generator
  has no locals yet.
\<close>

record locals =
  start :: int
  count :: int

record generator =
  rpm :: int
  minuteMs :: int
  suspended :: "locals option"

definition initTimeUntilNextMinute :: "int \<Rightarrow> int \<Rightarrow> generator" where
  "initTimeUntilNextMinute r m = \<lparr>rpm = r, minuteMs = m, suspended = None\<rparr>"

text \<open>Lines 43-44, executed by the first \<^verbatim>\<open>next()\<close> only.\<close>

definition resume :: "generator \<Rightarrow> world \<Rightarrow> locals \<times> world" where
  "resume g w =
     (case suspended g of
        None \<Rightarrow> (let (t, w') = Date_now w in (\<lparr>start = t, count = 1\<rparr>, w'))
      | Some l \<Rightarrow> (l, w))"

text \<open>Lines 47-63, the arrow function whose result is yielded.\<close>

definition yield_body :: "int \<Rightarrow> int \<Rightarrow> locals \<Rightarrow> world \<Rightarrow> int \<times> locals \<times> world" where
  "yield_body r m l w =
     (let endt = start l + m;
          (t, w1) = Date_now w;
          remainder = endt - t;
          (l1, w2) = (if remainder < 0
                      then (let (t', w') = Date_now w1 in (l\<lparr>count := 1, start := t'\<rparr>, w'))
                      else (l, w1));
          l2 = l1\<lparr>count := count l1 + 1\<rparr>
      in (if count l2 > r then remainder else 0, l2, w2))"

text \<open>\<^verbatim>\<open>generator.next().value\<close>: run to the next \<^verbatim>\<open>yield\<close>.\<close>

definition generator_next :: "generator \<Rightarrow> world \<Rightarrow> int \<times> generator \<times> world" where
  "generator_next g w =
     (let (l, w0) = resume g w;
          (v, l', w1) = yield_body (rpm g) (minuteMs g) l w0
      in (v, g\<lparr>suspended := Some l'\<rparr>, w1))"

text \<open>\<open>n\<close> successive \<^verbatim>\<open>next()\<close> calls on one generator, with the values they yield.\<close>

fun next_values :: "nat \<Rightarrow> generator \<Rightarrow> world \<Rightarrow> int list \<times> generator \<times> world" where
  "next_values 0 g w = ([], g, w)"
| "next_values (Suc n) g w =
     (let (v, g1, w1) = generator_next g w;
          (vs, g2, w2) = next_values n g1 w1
      in (v # vs, g2, w2))"

text \<open>
  What one invocation is about to see: the time left in the current window at the reading
  of line 49, whether the invocation resets the window (line 51), and the call count the
  generator holds.
\<close>

definition time_left :: "generator \<Rightarrow> world \<Rightarrow> int" where
  "time_left g w = (let (l, w0) = resume g w in start l + minuteMs g - fst (Date_now w0))"

definition performs_reset :: "generator \<Rightarrow> world \<Rightarrow> bool" where
  "performs_reset g w = (time_left g w < 0)"

definition callCount_of :: "generator \<Rightarrow> int" where
  "callCount_of g = (case suspended g of None \<Rightarrow> 1 | Some l \<Rightarrow> count l)"

section \<open>initWaitFor (src/lib/index.ts, lines 77-90)\<close>

text \<open>The closure variable \<^verbatim>\<open>timeoutId\<close>, \<open>None\<close> for \<^verbatim>\<open>null\<close>.\<close>

record executor =
  timeoutId :: "nat option"

definition initWaitFor :: executor where
  "initWaitFor = \<lparr>timeoutId = None\<rparr>"

text \<open>
  \<^verbatim>\<open>waitFor(ms)\<close> up to the point where the promise is returned: the timer is set and its
  handle stored. The promise settles when that timer fires.
\<close>

definition waitFor :: "int \<Rightarrow> executor \<Rightarrow> world \<Rightarrow> executor \<times> world" where
  "waitFor ms e w = (let (h, w') = setTimeout ms w in (e\<lparr>timeoutId := Some h\<rparr>, w'))"

definition clearWaitFor :: "executor \<Rightarrow> world \<Rightarrow> executor \<times> world" where
  "clearWaitFor e w =
     (case timeoutId e of
        None \<Rightarrow> (e, w)
      | Some h \<Rightarrow> (e, clearTimeout h w))"

text \<open>
  A timer that is still scheduled fires: the runtime drops it and calls the callback, which
  is the promise's \<^verbatim>\<open>resolve\<close> (line 82) and touches no variable of the executor. A timer
  that is not scheduled cannot fire.
\<close>

definition timer_fires :: "nat \<Rightarrow> executor \<Rightarrow> world \<Rightarrow> (executor \<times> world) option" where
  "timer_fires h e w =
     (case scheduled w h of
        None \<Rightarrow> None
      | Some ms \<Rightarrow> Some (e, w\<lparr>scheduled := (scheduled w)(h := None)\<rparr>))"

datatype exec_event = WaitFor int | ClearWaitFor | Fires nat

fun exec_step :: "exec_event \<Rightarrow> executor \<times> world \<Rightarrow> executor \<times> world" where
  "exec_step (WaitFor ms) (e, w) = waitFor ms e w"
| "exec_step ClearWaitFor (e, w) = clearWaitFor e w"
| "exec_step (Fires h) (e, w) = (case timer_fires h e w of None \<Rightarrow> (e, w) | Some s \<Rightarrow> s)"

fun exec_run :: "exec_event list \<Rightarrow> executor \<times> world \<Rightarrow> executor \<times> world" where
  "exec_run [] s = s"
| "exec_run (ev # evs) s = exec_run evs (exec_step ev s)"

section \<open>initRatePerMinuteLimiter (src/lib/index.ts, lines 126-148)\<close>

text \<open>
  The returned object closes over \<^verbatim>\<open>rpm\<close>, \<^verbatim>\<open>minuteMs\<close> and one executor. Its
  \<^verbatim>\<open>rateLimiter\<close> property is a getter: every read of the property runs
  \<^verbatim>\<open>createRateLimiter\<close>, which makes a generator and returns an async function closed over
  it. Such a function is represented by the generator it owns.
\<close>

record limiter =
  lim_rpm :: int
  lim_minuteMs :: int
  lim_executor :: executor

definition initRatePerMinuteLimiter :: "int \<Rightarrow> int \<Rightarrow> limiter" where
  "initRatePerMinuteLimiter r m = \<lparr>lim_rpm = r, lim_minuteMs = m, lim_executor = initWaitFor\<rparr>"

definition createRateLimiter :: "limiter \<Rightarrow> generator" where
  "createRateLimiter lr = initTimeUntilNextMinute (lim_rpm lr) (lim_minuteMs lr)"

definition get_rateLimiter :: "limiter \<Rightarrow> generator" where
  "get_rateLimiter lr = createRateLimiter lr"

text \<open>
  Calling the async function (lines 131-134) up to its \<^verbatim>\<open>await\<close>: take the next value of
  the owned generator, start the wait. The value is returned for observation.
\<close>

definition call_rateLimiter ::
  "generator \<Rightarrow> limiter \<Rightarrow> world \<Rightarrow> int \<times> generator \<times> limiter \<times> world" where
  "call_rateLimiter tg lr w =
     (let (timeout, tg', w1) = generator_next tg w;
          (e', w2) = waitFor timeout (lim_executor lr) w1
      in (timeout, tg', lr\<lparr>lim_executor := e'\<rparr>, w2))"

definition clear :: "limiter \<Rightarrow> world \<Rightarrow> limiter \<times> world" where
  "clear lr w = (let (e', w') = clearWaitFor (lim_executor lr) w in (lr\<lparr>lim_executor := e'\<rparr>, w'))"

text \<open>
  Two ways a caller drives the limiter \<open>n\<close> times: reading the property once and calling the
  function it got (\<^verbatim>\<open>const { rateLimiter } = ...\<close>, as the documentation does), or reading
  the property for every call (\<^verbatim>\<open>limiter.rateLimiter()\<close>).
\<close>

fun calls_on_reference ::
  "nat \<Rightarrow> generator \<Rightarrow> limiter \<Rightarrow> world \<Rightarrow> int list \<times> generator \<times> limiter \<times> world" where
  "calls_on_reference 0 tg lr w = ([], tg, lr, w)"
| "calls_on_reference (Suc n) tg lr w =
     (let (v, tg1, lim1, w1) = call_rateLimiter tg lr w;
          (vs, tg2, lim2, w2) = calls_on_reference n tg1 lim1 w1
      in (v # vs, tg2, lim2, w2))"

fun calls_on_property :: "nat \<Rightarrow> limiter \<Rightarrow> world \<Rightarrow> int list \<times> limiter \<times> world" where
  "calls_on_property 0 lr w = ([], lr, w)"
| "calls_on_property (Suc n) lr w =
     (let (v, tg1, lim1, w1) = call_rateLimiter (get_rateLimiter lr) lr w;
          (vs, lim2, w2) = calls_on_property n lim1 w1
      in (v # vs, lim2, w2))"

section \<open>initRatePerMinuteLimiter, the variant of src/unnamed/part_000 (lines 92-106)\<close>

text \<open>
  This variant makes the generator in the constructor and its \<^verbatim>\<open>rateLimiter\<close> is a plain
  property. Its generator function differs from the one above by a \<^verbatim>\<open>console.log\<close> before
  \<^verbatim>\<open>return remainder\<close>; the output is not represented, so the same \<open>generator_next\<close> serves.
\<close>

record limiter_once =
  timeoutGenerator :: generator
  once_executor :: executor

definition initRatePerMinuteLimiter_once :: "int \<Rightarrow> int \<Rightarrow> limiter_once" where
  "initRatePerMinuteLimiter_once r m =
     \<lparr>timeoutGenerator = initTimeUntilNextMinute r m, once_executor = initWaitFor\<rparr>"

definition rateLimiter_once :: "limiter_once \<Rightarrow> world \<Rightarrow> int \<times> limiter_once \<times> world" where
  "rateLimiter_once lr w =
     (let (timeout, tg', w1) = generator_next (timeoutGenerator lr) w;
          (e', w2) = waitFor timeout (once_executor lr) w1
      in (timeout, \<lparr>timeoutGenerator = tg', once_executor = e'\<rparr>, w2))"

definition clear_once :: "limiter_once \<Rightarrow> world \<Rightarrow> limiter_once \<times> world" where
  "clear_once lr w =
     (let (e', w') = clearWaitFor (once_executor lr) w in (lr\<lparr>once_executor := e'\<rparr>, w'))"

fun calls_once :: "nat \<Rightarrow> limiter_once \<Rightarrow> world \<Rightarrow> int list \<times> limiter_once \<times> world" where
  "calls_once 0 lr w = ([], lr, w)"
| "calls_once (Suc n) lr w =
     (let (v, lim1, w1) = rateLimiter_once lr w;
          (vs, lim2, w2) = calls_once n lim1 w1
      in (v # vs, lim2, w2))"

section \<open>The next-delay contract in the specification's words\<close>

text \<open>
  Section 4.1 of the specification, steps 1 to 6, on the window state
  \<open>{windowStartTime, callCount}\<close>; compared below with \<open>yield_body\<close>.
\<close>

record window_state =
  windowStartTime :: int
  callCount :: int

definition spec_next_delay ::
  "int \<Rightarrow> int \<Rightarrow> window_state \<Rightarrow> world \<Rightarrow> int \<times> window_state \<times> world" where
  "spec_next_delay limit windowDurationMs s w =
     (let windowEnd = windowStartTime s + windowDurationMs;
          (now1, w1) = Date_now w;
          remaining = windowEnd - now1;
          (s1, w2) = (if remaining < 0
                      then (let (now2, w') = Date_now w1
                            in (\<lparr>windowStartTime = now2, callCount = 1\<rparr>, w'))
                      else (s, w1));
          s2 = s1\<lparr>callCount := callCount s1 + 1\<rparr>
      in if callCount s2 > limit then (remaining, s2, w2) else (0, s2, w2))"

definition window_state_of :: "locals \<Rightarrow> window_state" where
  "window_state_of l = \<lparr>windowStartTime = start l, callCount = count l\<rparr>"

text \<open>A world whose clock always reads \<open>t\<close> and that has no timer.\<close>

definition frozen_world :: "int \<Rightarrow> world" where
  "frozen_world t = \<lparr>clock = (\<lambda>k. t), ticks = 0, next_timer = 0, scheduled = Map.empty\<rparr>"

text \<open>A world whose clock advances by \<open>d\<close> milliseconds between any two readings.\<close>

definition ticking_world :: "int \<Rightarrow> world" where
  "ticking_world d = \<lparr>clock = (\<lambda>k. int k * d), ticks = 0, next_timer = 0, scheduled = Map.empty\<rparr>"

text \<open>
  Observers of a run, used to speak of the invocations of one window: whether the next \<open>n\<close>
  invocations all stay in the current window (none resets it), and the time left in the
  window that each of the next \<open>n\<close> invocations sees.
\<close>

fun window_continues :: "nat \<Rightarrow> generator \<Rightarrow> world \<Rightarrow> bool" where
  "window_continues 0 g w = True"
| "window_continues (Suc n) g w =
     (\<not> performs_reset g w
      \<and> window_continues n (fst (snd (generator_next g w))) (snd (snd (generator_next g w))))"

fun times_left :: "nat \<Rightarrow> generator \<Rightarrow> world \<Rightarrow> int list" where
  "times_left 0 g w = []"
| "times_left (Suc n) g w =
     time_left g w # times_left n (fst (snd (generator_next g w))) (snd (snd (generator_next g w)))"

text \<open>
  Whether, in each of the next \<open>n\<close> invocations, the clock reading of line 49 is at least
  \<^verbatim>\<open>start\<close>, the reading taken when the window start was last set.
\<close>

fun readings_not_before_start :: "nat \<Rightarrow> generator \<Rightarrow> world \<Rightarrow> bool" where
  "readings_not_before_start 0 g w = True"
| "readings_not_before_start (Suc n) g w =
     (start (fst (resume g w)) \<le> fst (Date_now (snd (resume g w)))
      \<and> readings_not_before_start n (fst (snd (generator_next g w))) (snd (snd (generator_next g w))))"

text \<open>A world whose clock reads 0 for the first \<open>n\<close> readings and \<open>t\<close> from then on.\<close>

definition stepping_world :: "nat \<Rightarrow> int \<Rightarrow> world" where
  "stepping_world n t =
     \<lparr>clock = (\<lambda>k. if k < n then 0 else t), ticks = 0, next_timer = 0, scheduled = Map.empty\<rparr>"

section \<open>What one invocation computes\<close>

lemma yield_body_eq:
  "yield_body r m l w =
     (if start l + m - clock w (ticks w) < 0
      then (if 2 > r then start l + m - clock w (ticks w) else 0,
            \<lparr>start = clock w (Suc (ticks w)), count = 2\<rparr>,
            w\<lparr>ticks := Suc (Suc (ticks w))\<rparr>)
      else (if count l + 1 > r then start l + m - clock w (ticks w) else 0,
            l\<lparr>count := count l + 1\<rparr>,
            w\<lparr>ticks := Suc (ticks w)\<rparr>))"
  by (simp add: yield_body_def Date_now_def Let_def)

lemma resume_eq:
  "resume g w =
     (case suspended g of
        None \<Rightarrow> (\<lparr>start = clock w (ticks w), count = 1\<rparr>, w\<lparr>ticks := Suc (ticks w)\<rparr>)
      | Some l \<Rightarrow> (l, w))"
  by (simp add: resume_def Date_now_def split: option.splits)

lemma resume_world:
  "clock (snd (resume g w)) = clock w"
  "next_timer (snd (resume g w)) = next_timer w"
  "scheduled (snd (resume g w)) = scheduled w"
  by (simp_all add: resume_eq split: option.splits)

lemma generator_next_unfold:
  "generator_next g w =
     (case yield_body (rpm g) (minuteMs g) (fst (resume g w)) (snd (resume g w)) of
        (v, l', w1) \<Rightarrow> (v, g\<lparr>suspended := Some l'\<rparr>, w1))"
  by (simp add: generator_next_def Let_def split: prod.splits)

lemma time_left_eq:
  "time_left g w =
     start (fst (resume g w)) + minuteMs g - clock w (ticks (snd (resume g w)))"
  by (simp add: time_left_def Date_now_def resume_eq split: prod.splits option.splits)

lemma generator_next_value:
  "fst (generator_next g w) =
     (if time_left g w < 0 then (if 2 > rpm g then time_left g w else 0)
      else (if callCount_of g + 1 > rpm g then time_left g w else 0))"
  by (simp add: generator_next_unfold yield_body_eq time_left_eq resume_world callCount_of_def)
     (simp add: resume_eq split: option.splits)

lemma generator_next_count:
  "callCount_of (fst (snd (generator_next g w))) =
     (if time_left g w < 0 then 2 else callCount_of g + 1)"
  by (simp add: generator_next_unfold yield_body_eq time_left_eq resume_world callCount_of_def)
     (simp add: resume_eq split: option.splits)

lemma generator_next_params:
  "rpm (fst (snd (generator_next g w))) = rpm g"
  "minuteMs (fst (snd (generator_next g w))) = minuteMs g"
  by (simp_all add: generator_next_unfold split: prod.splits)

lemma generator_next_clock:
  "clock (snd (snd (generator_next g w))) = clock w"
  by (simp add: generator_next_unfold yield_body_eq resume_world)

lemma generator_next_ticks:
  "ticks w < ticks (snd (snd (generator_next g w)))"
  by (simp add: generator_next_unfold yield_body_eq resume_eq split: option.splits)

subsection \<open>Under a clock that never goes back\<close>

lemma generator_next_started:
  assumes "\<forall>l. suspended g = Some l \<longrightarrow> (\<exists>j<ticks w. start l = clock w j)"
    and "suspended (fst (snd (generator_next g w))) = Some l'"
  shows "\<exists>j<ticks (snd (snd (generator_next g w))). start l' = clock w j"
proof (cases "suspended g")
  case None
  with assms(2) have "start l' = clock w (ticks w)
      \<or> (start l' = clock w (Suc (Suc (ticks w)))
          \<and> ticks (snd (snd (generator_next g w))) = Suc (Suc (Suc (ticks w))))"
    by (auto simp add: generator_next_unfold yield_body_eq resume_eq split: if_splits)
  then show ?thesis
  proof
    assume "start l' = clock w (ticks w)"
    with generator_next_ticks [of w g] show ?thesis by blast
  next
    assume "start l' = clock w (Suc (Suc (ticks w)))
          \<and> ticks (snd (snd (generator_next g w))) = Suc (Suc (Suc (ticks w)))"
    then show ?thesis by (metis lessI)
  qed
next
  case (Some l)
  with assms(1) obtain j where j: "j < ticks w" "start l = clock w j" by blast
  from Some assms(2) have "start l' = start l
      \<or> (start l' = clock w (Suc (ticks w)) \<and> ticks (snd (snd (generator_next g w))) = Suc (Suc (ticks w)))"
    by (auto simp add: generator_next_unfold yield_body_eq resume_eq split: if_splits)
  then show ?thesis
  proof
    assume "start l' = start l"
    with j generator_next_ticks [of w g] show ?thesis
      by (metis less_trans)
  next
    assume "start l' = clock w (Suc (ticks w)) \<and> ticks (snd (snd (generator_next g w))) = Suc (Suc (ticks w))"
    then show ?thesis by (metis lessI)
  qed
qed

subsection \<open>The executor keeps its handle\<close>

lemma exec_step_keeps_handle:
  "timeoutId (fst s) \<noteq> None \<Longrightarrow> timeoutId (fst (exec_step ev s)) \<noteq> None"
  by (cases ev; cases s)
     (auto simp add: waitFor_def setTimeout_def clearWaitFor_def timer_fires_def
           split: option.splits)

lemma exec_run_keeps_handle:
  "timeoutId (fst s) \<noteq> None \<Longrightarrow> timeoutId (fst (exec_run evs s)) \<noteq> None"
proof (induction evs arbitrary: s)
  case Nil
  then show ?case by simp
next
  case (Cons ev evs)
  from Cons.prems have "timeoutId (fst (exec_step ev s)) \<noteq> None"
    by (rule exec_step_keeps_handle)
  then have "timeoutId (fst (exec_run evs (exec_step ev s))) \<noteq> None"
    by (rule Cons.IH)
  then show ?case by simp
qed

subsection \<open>Invocations within one window\<close>

lemma next_values_Suc:
  "fst (next_values (Suc n) g w) =
     fst (generator_next g w)
       # fst (next_values n (fst (snd (generator_next g w))) (snd (snd (generator_next g w))))"
  by (simp add: Let_def split: prod.splits)

lemma next_values_in_window:
  assumes "window_continues n g w" and "j < n"
  shows "fst (next_values n g w) ! j
      = (if int j + callCount_of g + 1 \<le> rpm g then 0 else times_left n g w ! j)
     \<and> 0 \<le> times_left n g w ! j"
  using assms
proof (induction n arbitrary: g w j)
  case 0
  then show ?case by simp
next
  case (Suc n)
  let ?g1 = "fst (snd (generator_next g w))"
  let ?w1 = "snd (snd (generator_next g w))"
  from Suc.prems(1) have nr: "\<not> time_left g w < 0" and wc: "window_continues n ?g1 ?w1"
    by (simp_all add: performs_reset_def)
  show ?case
  proof (cases j)
    case 0
    with nr show ?thesis
      by (simp add: next_values_Suc generator_next_value del: next_values.simps)
  next
    case (Suc j')
    with Suc.prems(2) have "j' < n" by simp
    from Suc.IH [OF wc this] nr Suc show ?thesis
      by (simp add: next_values_Suc generator_next_count generator_next_params
            add.commute add.left_commute del: next_values.simps)
  qed
qed

subsection \<open>The limiter: timers do not influence the tracker\<close>

lemma generator_next_cong:
  assumes "clock w = clock w'" and "ticks w = ticks w'"
  shows "fst (generator_next g w) = fst (generator_next g w')"
    and "fst (snd (generator_next g w)) = fst (snd (generator_next g w'))"
    and "clock (snd (snd (generator_next g w))) = clock (snd (snd (generator_next g w')))"
    and "ticks (snd (snd (generator_next g w))) = ticks (snd (snd (generator_next g w')))"
  using assms
  by (simp_all add: generator_next_unfold yield_body_eq resume_eq split: option.splits)

lemma waitFor_clock:
  "clock (snd (waitFor ms e w)) = clock w"
  "ticks (snd (waitFor ms e w)) = ticks w"
  by (simp_all add: waitFor_def setTimeout_def)

lemma clearWaitFor_clock:
  "clock (snd (clearWaitFor e w)) = clock w"
  "ticks (snd (clearWaitFor e w)) = ticks w"
  "fst (clearWaitFor e w) = e"
  by (simp_all add: clearWaitFor_def clearTimeout_def split: option.splits)

lemma call_rateLimiter_eq:
  "call_rateLimiter tg lr w =
     (fst (generator_next tg w),
      fst (snd (generator_next tg w)),
      lr\<lparr>lim_executor := fst (waitFor (fst (generator_next tg w)) (lim_executor lr)
                                 (snd (snd (generator_next tg w))))\<rparr>,
      snd (waitFor (fst (generator_next tg w)) (lim_executor lr) (snd (snd (generator_next tg w)))))"
  by (simp add: call_rateLimiter_def Let_def split: prod.splits)

lemma rateLimiter_once_eq:
  "rateLimiter_once lo w =
     (fst (generator_next (timeoutGenerator lo) w),
      \<lparr>timeoutGenerator = fst (snd (generator_next (timeoutGenerator lo) w)),
       once_executor = fst (waitFor (fst (generator_next (timeoutGenerator lo) w)) (once_executor lo)
                                 (snd (snd (generator_next (timeoutGenerator lo) w))))\<rparr>,
      snd (waitFor (fst (generator_next (timeoutGenerator lo) w)) (once_executor lo)
             (snd (snd (generator_next (timeoutGenerator lo) w)))))"
  by (simp add: rateLimiter_once_def Let_def split: prod.splits)

lemma calls_on_reference_values:
  "clock w = clock w' \<Longrightarrow> ticks w = ticks w' \<Longrightarrow>
     fst (calls_on_reference n tg lr w) = fst (next_values n tg w')"
proof (induction n arbitrary: tg lr w w')
  case 0
  then show ?case by simp
next
  case (Suc n)
  let ?g1 = "fst (snd (generator_next tg w))"
  let ?w1 = "snd (waitFor (fst (generator_next tg w)) (lim_executor lr) (snd (snd (generator_next tg w))))"
  let ?w1' = "snd (snd (generator_next tg w'))"
  have c: "clock ?w1 = clock ?w1'" and t: "ticks ?w1 = ticks ?w1'"
    using generator_next_cong(3,4) [OF Suc.prems, of tg] by (simp_all add: waitFor_clock)
  have g: "?g1 = fst (snd (generator_next tg w'))"
    using generator_next_cong(2) [OF Suc.prems] .
  have v: "fst (generator_next tg w) = fst (generator_next tg w')"
    using generator_next_cong(1) [OF Suc.prems] .
  have "fst (calls_on_reference (Suc n) tg lr w) =
      fst (generator_next tg w) # fst (calls_on_reference n ?g1
          (lr\<lparr>lim_executor := fst (waitFor (fst (generator_next tg w)) (lim_executor lr)
                                 (snd (snd (generator_next tg w))))\<rparr>) ?w1)"
    by (simp add: call_rateLimiter_eq Let_def split: prod.splits)
  also have "\<dots> = fst (generator_next tg w) # fst (next_values n ?g1 ?w1')"
    using Suc.IH [OF c t] by simp
  also have "\<dots> = fst (next_values (Suc n) tg w')"
    using g v by (simp add: next_values_Suc del: next_values.simps)
  finally show ?case .
qed

lemma calls_once_values:
  "clock w = clock w' \<Longrightarrow> ticks w = ticks w' \<Longrightarrow>
     fst (calls_once n lo w) = fst (next_values n (timeoutGenerator lo) w')"
proof (induction n arbitrary: lo w w')
  case 0
  then show ?case by simp
next
  case (Suc n)
  let ?tg = "timeoutGenerator lo"
  let ?lo1 = "fst (snd (rateLimiter_once lo w))"
  let ?w1 = "snd (snd (rateLimiter_once lo w))"
  let ?w1' = "snd (snd (generator_next ?tg w'))"
  have c: "clock ?w1 = clock ?w1'" and t: "ticks ?w1 = ticks ?w1'"
    using generator_next_cong(3,4) [OF Suc.prems, of ?tg]
    by (simp_all add: rateLimiter_once_eq waitFor_clock)
  have g: "timeoutGenerator ?lo1 = fst (snd (generator_next ?tg w'))"
    using generator_next_cong(2) [OF Suc.prems, of ?tg] by (simp add: rateLimiter_once_eq)
  have v: "fst (rateLimiter_once lo w) = fst (generator_next ?tg w')"
    using generator_next_cong(1) [OF Suc.prems, of ?tg] by (simp add: rateLimiter_once_eq)
  have "fst (calls_once (Suc n) lo w) = fst (rateLimiter_once lo w) # fst (calls_once n ?lo1 ?w1)"
    by (simp add: Let_def split: prod.splits)
  also have "\<dots> = fst (rateLimiter_once lo w) # fst (next_values n (timeoutGenerator ?lo1) ?w1')"
    using Suc.IH [OF c t] by simp
  also have "\<dots> = fst (next_values (Suc n) ?tg w')"
    using g v by (simp add: next_values_Suc del: next_values.simps)
  finally show ?case .
qed

lemma first_call_free:
  "2 \<le> r \<Longrightarrow> fst (generator_next (initTimeUntilNextMinute r m) w) = 0"
  by (simp add: generator_next_value callCount_of_def initTimeUntilNextMinute_def)

lemma calls_on_property_free:
  "2 \<le> lim_rpm lr \<Longrightarrow> fst (calls_on_property n lr w) = replicate n 0"
proof (induction n arbitrary: lr w)
  case 0
  then show ?case by simp
next
  case (Suc n)
  let ?c = "call_rateLimiter (get_rateLimiter lr) lr w"
  have r: "2 \<le> lim_rpm (fst (snd (snd ?c)))"
    using Suc.prems by (simp add: call_rateLimiter_eq)
  have v: "fst ?c = 0"
    using Suc.prems
    by (simp add: call_rateLimiter_eq get_rateLimiter_def createRateLimiter_def first_call_free)
  have "fst (calls_on_property (Suc n) lr w) =
      fst ?c # fst (calls_on_property n (fst (snd (snd ?c))) (snd (snd (snd ?c))))"
    by (simp add: Let_def split: prod.splits)
  with v Suc.IH [OF r] show ?case by simp
qed

lemma clear_eq:
  "clear lr w = (lr, snd (clearWaitFor (lim_executor lr) w))"
  by (simp add: clear_def clearWaitFor_def split: option.splits prod.splits)

lemma clear_once_eq:
  "clear_once lo w = (lo, snd (clearWaitFor (once_executor lo) w))"
  by (simp add: clear_once_def clearWaitFor_def split: option.splits prod.splits)

text \<open>
  The first window of a new tracker when no time passes: the invocation number \<open>k + 1\<close>
  returns 0 exactly when \<open>k + 2 \<le> rpm\<close>.
\<close>

lemma next_values_same_window:
  assumes "suspended g = Some l" and "clock w = (\<lambda>k. start l)" and "0 \<le> minuteMs g"
  shows "fst (next_values n g w)
      = map (\<lambda>k. if rpm g < count l + int k + 1 then minuteMs g else 0) [0..<n]"
  using assms
proof (induction n arbitrary: g l w)
  case 0
  then show ?case by simp
next
  case (Suc n)
  let ?g1 = "fst (snd (generator_next g w))"
  let ?w1 = "snd (snd (generator_next g w))"
  have tl: "time_left g w = minuteMs g"
    using Suc.prems by (simp add: time_left_eq resume_eq)
  have v: "fst (generator_next g w) = (if rpm g < count l + 1 then minuteMs g else 0)"
    using Suc.prems tl by (simp add: generator_next_value callCount_of_def)
  have s: "suspended ?g1 = Some (l\<lparr>count := count l + 1\<rparr>)"
    using Suc.prems by (simp add: generator_next_unfold yield_body_eq resume_eq)
  have c: "clock ?w1 = (\<lambda>k. start (l\<lparr>count := count l + 1\<rparr>))"
    using Suc.prems by (simp add: generator_next_clock)
  have p: "rpm ?g1 = rpm g" "minuteMs ?g1 = minuteMs g"
    by (simp_all add: generator_next_params)
  have "fst (next_values n ?g1 ?w1)
      = map (\<lambda>k. if rpm g < count l + 1 + int k + 1 then minuteMs g else 0) [0..<n]"
    using Suc.IH [OF s c] Suc.prems(3) p by simp
  then have "fst (next_values (Suc n) g w)
      = (if rpm g < count l + 1 then minuteMs g else 0)
        # map (\<lambda>k. if rpm g < count l + int (Suc k) + 1 then minuteMs g else 0) [0..<n]"
    using v by (simp add: next_values_Suc add.commute add.left_commute del: next_values.simps)
  then show ?case
    by (simp add: map_upt_Suc del: upt_Suc next_values.simps)
qed

lemma first_window_delays:
  assumes "0 \<le> m"
  shows "fst (next_values n (initTimeUntilNextMinute r m) (frozen_world t))
      = map (\<lambda>k. if r < int k + 2 then m else 0) [0..<n]"
proof (cases n)
  case 0
  then show ?thesis by simp
next
  case (Suc n')
  let ?g = "initTimeUntilNextMinute r m"
  let ?w = "frozen_world t"
  let ?g1 = "fst (snd (generator_next ?g ?w))"
  let ?w1 = "snd (snd (generator_next ?g ?w))"
  have tl: "time_left ?g ?w = m"
    by (simp add: time_left_eq resume_eq initTimeUntilNextMinute_def frozen_world_def)
  have v: "fst (generator_next ?g ?w) = (if r < 2 then m else 0)"
    using assms tl
    by (simp add: generator_next_value callCount_of_def) (simp add: initTimeUntilNextMinute_def)
  have s: "suspended ?g1 = Some \<lparr>start = t, count = 2\<rparr>"
    using assms
    by (simp add: generator_next_unfold yield_body_eq resume_eq initTimeUntilNextMinute_def
          frozen_world_def)
  have c: "clock ?w1 = (\<lambda>k. start \<lparr>start = t, count = 2\<rparr>)"
    by (simp add: generator_next_clock frozen_world_def)
  have p: "rpm ?g1 = r" "minuteMs ?g1 = m"
    by (simp_all add: generator_next_params initTimeUntilNextMinute_def)
  have "fst (next_values n' ?g1 ?w1)
      = map (\<lambda>k. if r < int (Suc k) + 2 then m else 0) [0..<n']"
    using next_values_same_window [OF s c, of n'] assms p
    by (simp add: add.commute add.left_commute)
  with v have "fst (next_values (Suc n') ?g ?w)
      = (if r < 2 then m else 0) # map (\<lambda>k. if r < int (Suc k) + 2 then m else 0) [0..<n']"
    by (simp add: next_values_Suc del: next_values.simps)
  with Suc show ?thesis
    by (simp add: map_upt_Suc del: upt_Suc next_values.simps)
qed

subsection \<open>Readings that are not before the window start\<close>

lemma time_left_bounded:
  "start (fst (resume g w)) \<le> fst (Date_now (snd (resume g w))) \<Longrightarrow> time_left g w \<le> minuteMs g"
  by (cases "resume g w") (simp add: time_left_def Date_now_def)

lemma next_values_not_before_start:
  assumes "0 \<le> minuteMs g" and "readings_not_before_start n g w"
  shows "\<forall>v\<in>set (fst (next_values n g w)). v \<le> minuteMs g"
  using assms
proof (induction n arbitrary: g w)
  case 0
  then show ?case by simp
next
  case (Suc n)
  let ?g1 = "fst (snd (generator_next g w))"
  let ?w1 = "snd (snd (generator_next g w))"
  from Suc.prems(2) have t: "time_left g w \<le> minuteMs g"
    and r: "readings_not_before_start n ?g1 ?w1"
    by (simp_all add: time_left_bounded)
  from t Suc.prems(1) have v: "fst (generator_next g w) \<le> minuteMs g"
    by (simp add: generator_next_value)
  have "\<forall>v\<in>set (fst (next_values n ?g1 ?w1)). v \<le> minuteMs ?g1"
    using Suc.IH [OF _ r] Suc.prems(1) by (simp add: generator_next_params)
  with v show ?case
    by (simp add: next_values_Suc generator_next_params del: next_values.simps)
qed

lemma reading_after_start:
  assumes "mono (clock w)"
    and "\<forall>l. suspended g = Some l \<longrightarrow> (\<exists>j<ticks w. start l = clock w j)"
  shows "start (fst (resume g w)) \<le> fst (Date_now (snd (resume g w)))"
proof (cases "suspended g")
  case None
  have "clock w (ticks w) \<le> clock w (Suc (ticks w))"
    using assms(1) by (simp add: monoD)
  with None show ?thesis by (simp add: resume_eq Date_now_def)
next
  case (Some l)
  with assms(2) obtain j where j: "j < ticks w" "start l = clock w j" by blast
  have "clock w j \<le> clock w (ticks w)"
    using assms(1) j(1) by (simp add: monoD)
  with Some j show ?thesis by (simp add: resume_eq Date_now_def)
qed

lemma mono_clock_not_before_start:
  assumes "mono (clock w)"
    and "\<forall>l. suspended g = Some l \<longrightarrow> (\<exists>j<ticks w. start l = clock w j)"
  shows "readings_not_before_start n g w"
  using assms
proof (induction n arbitrary: g w)
  case 0
  then show ?case by simp
next
  case (Suc n)
  let ?g1 = "fst (snd (generator_next g w))"
  let ?w1 = "snd (snd (generator_next g w))"
  have c: "clock ?w1 = clock w"
    by (simp add: generator_next_clock)
  have i: "\<forall>l. suspended ?g1 = Some l \<longrightarrow> (\<exists>j<ticks ?w1. start l = clock ?w1 j)"
    using generator_next_started [OF Suc.prems(2)] c by simp
  have "readings_not_before_start n ?g1 ?w1"
    using Suc.IH [of ?w1 ?g1] Suc.prems(1) c i by simp
  with reading_after_start [OF Suc.prems] show ?case by simp
qed

section \<open>The claims\<close>

text \<open>
  C1, as stated: in any single window the first \<open>L\<close> invocations return 0 and the
  \<open>(L+1)\<close>-th is the first to return a delay. With \<open>L = 3\<close> and a window of 250 ms, four
  invocations at time 0 and three more at time 251: the third invocation of the first window
  and the third of the second window (the seventh in all) already return 250.
\<close>

theorem C1_third_invocation_delayed_counterexample:
  "fst (next_values 7 (initTimeUntilNextMinute 3 250) (stepping_world 5 251))
     = [0, 0, 250, 250, 0, 0, 250]"
  by code_simp

text \<open>
  C1, amended: in a window begun by a reset, the \<open>j\<close>-th invocation (the resetting one is
  the first) returns 0 when \<open>j < L\<close> and otherwise the time left until the window boundary
  as it stood when the invocation read the clock; so the first \<open>L - 1\<close> invocations return
  0 and the \<open>L\<close>-th is the first to return the time left, which is not negative for every
  invocation after the resetting one. Below \<open>j\<close> counts from 0.
\<close>

theorem C1_window_after_reset:
  assumes "performs_reset g w"
    and "window_continues n (fst (snd (generator_next g w))) (snd (snd (generator_next g w)))"
    and "j \<le> n"
  shows "fst (next_values (Suc n) g w) ! j
      = (if int j + 2 \<le> rpm g then 0 else times_left (Suc n) g w ! j)
     \<and> (0 < j \<longrightarrow> 0 \<le> times_left (Suc n) g w ! j)"
proof -
  from assms(1) have r: "time_left g w < 0" by (simp add: performs_reset_def)
  have a: "fst (next_values (Suc n) g w) ! j
      = (if int j + 2 \<le> rpm g then 0 else times_left (Suc n) g w ! j)"
  proof (cases j)
    case 0
    with r show ?thesis
      by (auto simp add: next_values_Suc generator_next_value simp del: next_values.simps)
  next
    case (Suc j')
    with assms(3) have "j' < n" by simp
    from next_values_in_window [OF assms(2) this] r Suc show ?thesis
      by (simp add: next_values_Suc generator_next_count generator_next_params
            add.commute add.left_commute del: next_values.simps)
  qed
  have b: "0 \<le> times_left (Suc n) g w ! j" if "0 < j"
  proof -
    from that obtain j' where j: "j = Suc j'" by (cases j) auto
    with assms(3) have "j' < n" by simp
    from next_values_in_window [OF assms(2) this] j show ?thesis by simp
  qed
  from a b show ?thesis by blast
qed

theorem C1_window_after_reset_witness:
  "performs_reset
     (fst (snd (next_values 4 (initTimeUntilNextMinute 3 250) (stepping_world 5 251))))
     (snd (snd (next_values 4 (initTimeUntilNextMinute 3 250) (stepping_world 5 251))))
   \<and> window_continues 2
     (fst (snd (generator_next
        (fst (snd (next_values 4 (initTimeUntilNextMinute 3 250) (stepping_world 5 251))))
        (snd (snd (next_values 4 (initTimeUntilNextMinute 3 250) (stepping_world 5 251)))))))
     (snd (snd (generator_next
        (fst (snd (next_values 4 (initTimeUntilNextMinute 3 250) (stepping_world 5 251))))
        (snd (snd (next_values 4 (initTimeUntilNextMinute 3 250) (stepping_world 5 251)))))))
   \<and> (2::nat) \<le> 2
   \<and> fst (next_values (Suc 2)
        (fst (snd (next_values 4 (initTimeUntilNextMinute 3 250) (stepping_world 5 251))))
        (snd (snd (next_values 4 (initTimeUntilNextMinute 3 250) (stepping_world 5 251))))) ! 2
      = 250"
proof -
  let ?g = "fst (snd (next_values 4 (initTimeUntilNextMinute 3 250) (stepping_world 5 251)))"
  let ?w = "snd (snd (next_values 4 (initTimeUntilNextMinute 3 250) (stepping_world 5 251)))"
  have h1: "performs_reset ?g ?w"
    by code_simp
  have h2: "window_continues 2 (fst (snd (generator_next ?g ?w))) (snd (snd (generator_next ?g ?w)))"
    by code_simp
  have h3: "(2::nat) \<le> 2" by simp
  have e1: "\<not> int 2 + 2 \<le> rpm ?g"
    by code_simp
  have e2: "times_left (Suc 2) ?g ?w ! 2 = 250"
    by code_simp
  from C1_window_after_reset [OF h1 h2 h3] e1 e2
  have "fst (next_values (Suc 2) ?g ?w) ! 2 = 250"
    by simp
  with h1 h2 h3 show ?thesis by blast
qed

text \<open>
  C2, as stated: the limiter makes its tracker once and does not make a new one at each
  access of the limiting operation. With a limit of 2 and a window of 1000 ms, three calls
  \<^verbatim>\<open>limiter.rateLimiter()\<close> at time 0 all get the delay 0, where a tracker made once
  (the variant of part_000) delays the second and the third call by 1000.
\<close>

theorem C2_fresh_tracker_per_access_counterexample:
  "fst (calls_on_property 3 (initRatePerMinuteLimiter 2 1000) (frozen_world 0)) = [0, 0, 0]
   \<and> fst (calls_once 3 (initRatePerMinuteLimiter_once 2 1000) (frozen_world 0)) = [0, 1000, 1000]"
  by code_simp

text \<open>
  C2, amended: \<^verbatim>\<open>initRatePerMinuteLimiter\<close> of src/lib/index.ts makes a new Window Tracker
  at every read of the \<^verbatim>\<open>rateLimiter\<close> property, also after earlier calls; the function
  obtained by one read keeps its tracker, so its successive calls get the delays of one
  tracker; calls made through a new read each time are never delayed when the limit is at
  least 2. The variant of src/unnamed/part_000 makes the tracker once, in the constructor,
  and its calls get the delays of that one tracker.
\<close>

theorem C2_tracker_made_at_each_property_read:
  "get_rateLimiter lr = initTimeUntilNextMinute (lim_rpm lr) (lim_minuteMs lr)
   \<and> get_rateLimiter (fst (snd (snd (call_rateLimiter tg lr w)))) = get_rateLimiter lr
   \<and> fst (calls_on_reference n tg lr w) = fst (next_values n tg w)
   \<and> (2 \<le> lim_rpm lr \<longrightarrow> fst (calls_on_property n lr w) = replicate n 0)
   \<and> fst (calls_once n (initRatePerMinuteLimiter_once r m) w)
       = fst (next_values n (initTimeUntilNextMinute r m) w)"
  using calls_on_reference_values [of w w n tg lr] calls_on_property_free [of lr n w]
    calls_once_values [of w w n "initRatePerMinuteLimiter_once r m"]
  by (simp add: get_rateLimiter_def createRateLimiter_def call_rateLimiter_eq
        initRatePerMinuteLimiter_once_def)

theorem C2_tracker_made_at_each_property_read_witness:
  "2 \<le> lim_rpm (initRatePerMinuteLimiter 3 250)
   \<and> fst (calls_on_property 5 (initRatePerMinuteLimiter 3 250) (ticking_world 10)) = [0, 0, 0, 0, 0]
   \<and> fst (calls_on_reference 5 (get_rateLimiter (initRatePerMinuteLimiter 3 250))
            (initRatePerMinuteLimiter 3 250) (ticking_world 10)) = [0, 0, 220, 210, 200]"
proof -
  have h: "2 \<le> lim_rpm (initRatePerMinuteLimiter 3 250)"
    by (simp add: initRatePerMinuteLimiter_def)
  have e: "fst (next_values 5 (get_rateLimiter (initRatePerMinuteLimiter 3 250)) (ticking_world 10))
      = [0, 0, 220, 210, 200]"
    by code_simp
  have r: "replicate 5 (0::int) = [0, 0, 0, 0, 0]"
    by (simp add: numeral_eq_Suc)
  note t = C2_tracker_made_at_each_property_read [of "initRatePerMinuteLimiter 3 250" "get_rateLimiter (initRatePerMinuteLimiter 3 250)"
      "ticking_world 10" 5]
  from t h have a: "fst (calls_on_property 5 (initRatePerMinuteLimiter 3 250) (ticking_world 10))
      = replicate 5 0"
    by blast
  from t have b: "fst (calls_on_reference 5 (get_rateLimiter (initRatePerMinuteLimiter 3 250))
            (initRatePerMinuteLimiter 3 250) (ticking_world 10))
      = fst (next_values 5 (get_rateLimiter (initRatePerMinuteLimiter 3 250)) (ticking_world 10))"
    by blast
  from h a b e r show ?thesis by (simp only: simp_thms)
qed

text \<open>
  C3. Each invocation of the next-delay operation performs the steps of the contract on
  \<open>{windowStartTime, callCount}\<close>: the remaining time is the window start plus the window
  length minus the clock reading; when it is negative the count becomes 1 and the window
  start the (next) clock reading; the count is incremented; when the count then exceeds the
  limit the remaining time computed before the reset is returned, otherwise 0. The first
  invocation runs the same steps on the state that lines 43-44 have just set.
\<close>

theorem C3_next_delay_steps:
  "(case yield_body r m l w of (v, l', w') \<Rightarrow> (v, window_state_of l', w'))
     = spec_next_delay r m (window_state_of l) w
   \<and> (case generator_next g w of (v, g', w') \<Rightarrow> (v, map_option window_state_of (suspended g'), rpm g', minuteMs g', w'))
     = (case spec_next_delay (rpm g) (minuteMs g) (window_state_of (fst (resume g w))) (snd (resume g w)) of
          (v, s, w') \<Rightarrow> (v, Some s, rpm g, minuteMs g, w'))"
  by (simp add: generator_next_unfold yield_body_eq spec_next_delay_def window_state_of_def Date_now_def Let_def)

text \<open>
  C4, as stated: the recorded handle is cleared when the wait fires and when it is
  cancelled. It is not: after a wait of 100 ms on a new executor followed by
  \<^verbatim>\<open>clearWaitFor()\<close>, and after the same wait followed by its timer firing, \<^verbatim>\<open>timeoutId\<close>
  still holds the handle 0 although the timer is gone.
\<close>

theorem C4_handle_not_cleared_counterexample:
  "timeoutId (fst (exec_run [WaitFor 100, ClearWaitFor] (initWaitFor, frozen_world 0))) = Some 0
   \<and> scheduled (snd (exec_run [WaitFor 100, ClearWaitFor] (initWaitFor, frozen_world 0))) 0 = None
   \<and> timeoutId (fst (exec_run [WaitFor 100, Fires 0] (initWaitFor, frozen_world 0))) = Some 0
   \<and> scheduled (snd (exec_run [WaitFor 100, Fires 0] (initWaitFor, frozen_world 0))) 0 = None"
  by (simp add: initWaitFor_def frozen_world_def waitFor_def setTimeout_def clearWaitFor_def
        clearTimeout_def timer_fires_def)

text \<open>
  C4, amended: \<^verbatim>\<open>waitFor\<close> records the handle of the timer it sets; neither
  \<^verbatim>\<open>clearWaitFor\<close> nor the timer firing changes the recorded handle, so once a wait has
  begun the executor holds a recorded handle after every later sequence of waits,
  cancellations and firings.
\<close>

theorem C4_handle_stays_recorded:
  "timeoutId (fst (waitFor ms e w)) = Some (next_timer w)
   \<and> scheduled (snd (waitFor ms e w)) (next_timer w) = Some ms
   \<and> timeoutId (fst (clearWaitFor e w)) = timeoutId e
   \<and> (timer_fires h e w = Some (e', w') \<longrightarrow> timeoutId e' = timeoutId e)
   \<and> (timeoutId e \<noteq> None \<longrightarrow> timeoutId (fst (exec_run evs (e, w))) \<noteq> None)"
  using exec_run_keeps_handle [of "(e, w)" evs]
  by (auto simp add: waitFor_def setTimeout_def clearWaitFor_def timer_fires_def
        split: option.splits)

theorem C4_handle_stays_recorded_witness:
  "timer_fires 0 \<lparr>timeoutId = Some 0\<rparr> ((frozen_world 0)\<lparr>next_timer := 1, scheduled := [0 \<mapsto> 100]\<rparr>)
     = Some (\<lparr>timeoutId = Some 0\<rparr>, (frozen_world 0)\<lparr>next_timer := 1, scheduled := Map.empty\<rparr>)
   \<and> timeoutId \<lparr>timeoutId = Some 0\<rparr> \<noteq> None
   \<and> timeoutId (fst (exec_run [Fires 0, ClearWaitFor]
        (\<lparr>timeoutId = Some 0\<rparr>, (frozen_world 0)\<lparr>next_timer := 1, scheduled := [0 \<mapsto> 100]\<rparr>))) \<noteq> None"
proof -
  have h1: "timer_fires 0 \<lparr>timeoutId = Some 0\<rparr> ((frozen_world 0)\<lparr>next_timer := 1, scheduled := [0 \<mapsto> 100]\<rparr>)
     = Some (\<lparr>timeoutId = Some 0\<rparr>, (frozen_world 0)\<lparr>next_timer := 1, scheduled := Map.empty\<rparr>)"
    by (simp add: timer_fires_def frozen_world_def)
  have h2: "timeoutId \<lparr>timeoutId = Some 0\<rparr> \<noteq> None" by simp
  from C4_handle_stays_recorded [of 0 "\<lparr>timeoutId = Some 0\<rparr>"
      "(frozen_world 0)\<lparr>next_timer := 1, scheduled := [0 \<mapsto> 100]\<rparr>" 0
      "\<lparr>timeoutId = Some 0\<rparr>" "(frozen_world 0)\<lparr>next_timer := 1, scheduled := Map.empty\<rparr>"
      "[Fires 0, ClearWaitFor]"] h1 h2
  show ?thesis by blast
qed

text \<open>
  C5. An invocation that resets the window and whose incremented count exceeds the limit
  returns the remaining time computed before the reset, which is negative; and an invocation
  that returns a negative value has reset the window.
\<close>

theorem C5_negative_delay_on_reset:
  "(performs_reset g w \<and> rpm g < callCount_of (fst (snd (generator_next g w)))
      \<longrightarrow> fst (generator_next g w) = time_left g w \<and> fst (generator_next g w) < 0)
   \<and> (fst (generator_next g w) < 0 \<longrightarrow> performs_reset g w)"
  by (auto simp add: performs_reset_def generator_next_value generator_next_count split: if_splits)

theorem C5_negative_delay_on_reset_witness:
  "performs_reset (initTimeUntilNextMinute 1 250) (ticking_world 300)
   \<and> rpm (initTimeUntilNextMinute 1 250)
       < callCount_of (fst (snd (generator_next (initTimeUntilNextMinute 1 250) (ticking_world 300))))
   \<and> fst (generator_next (initTimeUntilNextMinute 1 250) (ticking_world 300)) = - 50
   \<and> time_left (initTimeUntilNextMinute 1 250) (ticking_world 300) = - 50"
proof -
  have h1: "performs_reset (initTimeUntilNextMinute 1 250) (ticking_world 300)"
    by code_simp
  have h2: "rpm (initTimeUntilNextMinute 1 250)
       < callCount_of (fst (snd (generator_next (initTimeUntilNextMinute 1 250) (ticking_world 300))))"
    by code_simp
  have h3: "time_left (initTimeUntilNextMinute 1 250) (ticking_world 300) = - 50"
    by code_simp
  from C5_negative_delay_on_reset [of "initTimeUntilNextMinute 1 250" "ticking_world 300"] h1 h2 h3
  show ?thesis by simp
qed

text \<open>
  C6, as stated: \<^verbatim>\<open>clear()\<close> cancels any pending wait. With a limit of 1 and a window of
  250 ms, two calls of one \<^verbatim>\<open>rateLimiter\<close> function at time 0, the first not awaited, start
  the waits 0 and 1, both of 250 ms; after \<^verbatim>\<open>clear()\<close> the wait 1 is gone and the wait 0 is
  still scheduled.
\<close>

theorem C6_earlier_wait_survives_clear_counterexample:
  "fst (calls_on_reference 2 (get_rateLimiter (initRatePerMinuteLimiter 1 250))
          (initRatePerMinuteLimiter 1 250) (frozen_world 0)) = [250, 250]
   \<and> scheduled (snd (snd (snd (calls_on_reference 2 (get_rateLimiter (initRatePerMinuteLimiter 1 250))
          (initRatePerMinuteLimiter 1 250) (frozen_world 0))))) 0 = Some 250
   \<and> scheduled (snd (clear
        (fst (snd (snd (calls_on_reference 2 (get_rateLimiter (initRatePerMinuteLimiter 1 250))
          (initRatePerMinuteLimiter 1 250) (frozen_world 0)))))
        (snd (snd (snd (calls_on_reference 2 (get_rateLimiter (initRatePerMinuteLimiter 1 250))
          (initRatePerMinuteLimiter 1 250) (frozen_world 0))))))) 0 = Some 250
   \<and> scheduled (snd (clear
        (fst (snd (snd (calls_on_reference 2 (get_rateLimiter (initRatePerMinuteLimiter 1 250))
          (initRatePerMinuteLimiter 1 250) (frozen_world 0)))))
        (snd (snd (snd (calls_on_reference 2 (get_rateLimiter (initRatePerMinuteLimiter 1 250))
          (initRatePerMinuteLimiter 1 250) (frozen_world 0))))))) 1 = None"
  by code_simp

text \<open>
  C6, amended: \<^verbatim>\<open>clear()\<close> cancels the pending wait whose handle the executor holds, the
  one started last, so that it cannot fire, and no other wait: every other timer stays as it
  was. It changes nothing else: the limiter object is the same, and the next call of a
  \<^verbatim>\<open>rateLimiter\<close> function gets the same delay and leaves its tracker in the same state as
  it would without the \<^verbatim>\<open>clear()\<close>. The same holds for the variant of part_000, whose
  tracker is a field of the limiter.
\<close>

theorem C6_clear_cancels_recorded_wait_only:
  "(timeoutId (lim_executor lr) = Some h \<longrightarrow>
      scheduled (snd (clear lr w)) h = None
      \<and> timer_fires h (lim_executor (fst (clear lr w))) (snd (clear lr w)) = None)
   \<and> (timeoutId (lim_executor lr) \<noteq> Some h' \<longrightarrow> scheduled (snd (clear lr w)) h' = scheduled w h')
   \<and> fst (clear lr w) = lr
   \<and> fst (call_rateLimiter tg (fst (clear lr w)) (snd (clear lr w))) = fst (call_rateLimiter tg lr w)
   \<and> fst (snd (call_rateLimiter tg (fst (clear lr w)) (snd (clear lr w))))
       = fst (snd (call_rateLimiter tg lr w))
   \<and> (timeoutId (once_executor lo) = Some h \<longrightarrow> scheduled (snd (clear_once lo w)) h = None)
   \<and> (timeoutId (once_executor lo) \<noteq> Some h' \<longrightarrow>
        scheduled (snd (clear_once lo w)) h' = scheduled w h')
   \<and> timeoutGenerator (fst (clear_once lo w)) = timeoutGenerator lo
   \<and> fst (rateLimiter_once (fst (clear_once lo w)) (snd (clear_once lo w)))
       = fst (rateLimiter_once lo w)
   \<and> timeoutGenerator (fst (snd (rateLimiter_once (fst (clear_once lo w)) (snd (clear_once lo w)))))
       = timeoutGenerator (fst (snd (rateLimiter_once lo w)))"
proof -
  have a: "timeoutId (lim_executor lr) = Some h \<longrightarrow>
      scheduled (snd (clear lr w)) h = None
      \<and> timer_fires h (lim_executor (fst (clear lr w))) (snd (clear lr w)) = None"
    by (simp add: clear_eq clearWaitFor_def clearTimeout_def timer_fires_def)
  have b: "timeoutId (once_executor lo) = Some h \<longrightarrow> scheduled (snd (clear_once lo w)) h = None"
    by (simp add: clear_once_eq clearWaitFor_def clearTimeout_def)
  have a': "timeoutId (lim_executor lr) \<noteq> Some h' \<longrightarrow>
      scheduled (snd (clear lr w)) h' = scheduled w h'"
    by (auto simp add: clear_eq clearWaitFor_def clearTimeout_def split: option.splits)
  have b': "timeoutId (once_executor lo) \<noteq> Some h' \<longrightarrow>
      scheduled (snd (clear_once lo w)) h' = scheduled w h'"
    by (auto simp add: clear_once_eq clearWaitFor_def clearTimeout_def split: option.splits)
  have c: "clock (snd (clearWaitFor e w)) = clock w" "ticks (snd (clearWaitFor e w)) = ticks w" for e
    by (simp_all add: clearWaitFor_clock)
  have n: "fst (generator_next g (snd (clearWaitFor e w))) = fst (generator_next g w)"
    "fst (snd (generator_next g (snd (clearWaitFor e w)))) = fst (snd (generator_next g w))" for g e
    using generator_next_cong(1,2) [OF c] by blast+
  have d: "fst (clear lr w) = lr
   \<and> fst (call_rateLimiter tg (fst (clear lr w)) (snd (clear lr w))) = fst (call_rateLimiter tg lr w)
   \<and> fst (snd (call_rateLimiter tg (fst (clear lr w)) (snd (clear lr w))))
       = fst (snd (call_rateLimiter tg lr w))
   \<and> timeoutGenerator (fst (clear_once lo w)) = timeoutGenerator lo
   \<and> fst (rateLimiter_once (fst (clear_once lo w)) (snd (clear_once lo w)))
       = fst (rateLimiter_once lo w)
   \<and> timeoutGenerator (fst (snd (rateLimiter_once (fst (clear_once lo w)) (snd (clear_once lo w)))))
       = timeoutGenerator (fst (snd (rateLimiter_once lo w)))"
    using n by (simp add: clear_eq clear_once_eq call_rateLimiter_eq rateLimiter_once_eq)
  from a a' b b' d show ?thesis by blast
qed

theorem C6_clear_cancels_recorded_wait_only_witness:
  "timeoutId (lim_executor (fst (snd (snd
       (calls_on_reference 2 (initTimeUntilNextMinute 1 250) (initRatePerMinuteLimiter 1 250) (frozen_world 0))))))
     = Some 1
   \<and> timeoutId (lim_executor (fst (snd (snd
       (calls_on_reference 2 (initTimeUntilNextMinute 1 250) (initRatePerMinuteLimiter 1 250) (frozen_world 0))))))
     \<noteq> Some 0
   \<and> scheduled (snd (clear
        (fst (snd (snd (calls_on_reference 2 (initTimeUntilNextMinute 1 250) (initRatePerMinuteLimiter 1 250) (frozen_world 0)))))
        (snd (snd (snd (calls_on_reference 2 (initTimeUntilNextMinute 1 250) (initRatePerMinuteLimiter 1 250) (frozen_world 0))))))) 1
     = None
   \<and> scheduled (snd (clear
        (fst (snd (snd (calls_on_reference 2 (initTimeUntilNextMinute 1 250) (initRatePerMinuteLimiter 1 250) (frozen_world 0)))))
        (snd (snd (snd (calls_on_reference 2 (initTimeUntilNextMinute 1 250) (initRatePerMinuteLimiter 1 250) (frozen_world 0))))))) 0
     = scheduled (snd (snd (snd (calls_on_reference 2 (initTimeUntilNextMinute 1 250) (initRatePerMinuteLimiter 1 250) (frozen_world 0))))) 0
   \<and> timeoutId (once_executor (fst (snd
       (calls_once 2 (initRatePerMinuteLimiter_once 1 250) (frozen_world 0)))))
     = Some 1
   \<and> timeoutId (once_executor (fst (snd
       (calls_once 2 (initRatePerMinuteLimiter_once 1 250) (frozen_world 0)))))
     \<noteq> Some 0
   \<and> scheduled (snd (clear_once
        (fst (snd (calls_once 2 (initRatePerMinuteLimiter_once 1 250) (frozen_world 0))))
        (snd (snd (calls_once 2 (initRatePerMinuteLimiter_once 1 250) (frozen_world 0)))))) 1
     = None
   \<and> scheduled (snd (clear_once
        (fst (snd (calls_once 2 (initRatePerMinuteLimiter_once 1 250) (frozen_world 0))))
        (snd (snd (calls_once 2 (initRatePerMinuteLimiter_once 1 250) (frozen_world 0)))))) 0
     = scheduled (snd (snd (calls_once 2 (initRatePerMinuteLimiter_once 1 250) (frozen_world 0)))) 0"
proof -
  let ?s = "calls_on_reference 2 (initTimeUntilNextMinute 1 250) (initRatePerMinuteLimiter 1 250) (frozen_world 0)"
  let ?t = "calls_once 2 (initRatePerMinuteLimiter_once 1 250) (frozen_world 0)"
  have h1: "timeoutId (lim_executor (fst (snd (snd ?s)))) = Some 1"
    by code_simp
  then have h2: "timeoutId (lim_executor (fst (snd (snd ?s)))) \<noteq> Some 0"
    by simp
  have h3: "timeoutId (once_executor (fst (snd ?t))) = Some 1"
    by code_simp
  then have h4: "timeoutId (once_executor (fst (snd ?t))) \<noteq> Some 0"
    by simp
  note t = C6_clear_cancels_recorded_wait_only [of "fst (snd (snd ?s))" 1 "snd (snd (snd ?s))" 0 _ "fst (snd ?t)"]
  from t h1 have a: "scheduled (snd (clear (fst (snd (snd ?s))) (snd (snd (snd ?s))))) 1 = None"
    by blast
  from t h2 have b: "scheduled (snd (clear (fst (snd (snd ?s))) (snd (snd (snd ?s))))) 0
      = scheduled (snd (snd (snd ?s))) 0"
    by blast
  note u = C6_clear_cancels_recorded_wait_only [of _ 1 "snd (snd ?t)" 0 _ "fst (snd ?t)"]
  from u h3 have c: "scheduled (snd (clear_once (fst (snd ?t)) (snd (snd ?t)))) 1 = None"
    by blast
  from u h4 have d: "scheduled (snd (clear_once (fst (snd ?t)) (snd (snd ?t)))) 0
      = scheduled (snd (snd ?t)) 0"
    by blast
  from h1 h2 h3 h4 a b c d show ?thesis by blast
qed

text \<open>
  C7. \<^verbatim>\<open>clearWaitFor()\<close> and the limiter's \<^verbatim>\<open>clear()\<close> are total (they have no failing
  branch) and, when no handle is recorded, in particular on a new executor or limiter, they
  return the executor, the limiter (with its tracker, in the variant of part_000) and the
  world unchanged.
\<close>

theorem C7_cancel_without_handle_is_noop:
  "(timeoutId e = None \<longrightarrow> clearWaitFor e w = (e, w))
   \<and> clearWaitFor initWaitFor w = (initWaitFor, w)
   \<and> (timeoutId (lim_executor lr) = None \<longrightarrow> clear lr w = (lr, w))
   \<and> clear (initRatePerMinuteLimiter r m) w = (initRatePerMinuteLimiter r m, w)
   \<and> (timeoutId (once_executor lo) = None \<longrightarrow> clear_once lo w = (lo, w))
   \<and> clear_once (initRatePerMinuteLimiter_once r m) w = (initRatePerMinuteLimiter_once r m, w)"
  by (simp add: clear_eq clear_once_eq clearWaitFor_def initWaitFor_def
        initRatePerMinuteLimiter_def initRatePerMinuteLimiter_once_def)

theorem C7_cancel_without_handle_is_noop_witness:
  "timeoutId initWaitFor = None
   \<and> clearWaitFor initWaitFor (frozen_world 0) = (initWaitFor, frozen_world 0)
   \<and> timeoutId (lim_executor (initRatePerMinuteLimiter 3 250)) = None
   \<and> clear (initRatePerMinuteLimiter 3 250) (frozen_world 0)
       = (initRatePerMinuteLimiter 3 250, frozen_world 0)
   \<and> timeoutId (once_executor (initRatePerMinuteLimiter_once 3 250)) = None
   \<and> clear_once (initRatePerMinuteLimiter_once 3 250) (frozen_world 0)
       = (initRatePerMinuteLimiter_once 3 250, frozen_world 0)"
proof -
  have h1: "timeoutId initWaitFor = None"
    by (simp add: initWaitFor_def)
  have h2: "timeoutId (lim_executor (initRatePerMinuteLimiter 3 250)) = None"
    by (simp add: initRatePerMinuteLimiter_def initWaitFor_def)
  have h3: "timeoutId (once_executor (initRatePerMinuteLimiter_once 3 250)) = None"
    by (simp add: initRatePerMinuteLimiter_once_def initWaitFor_def)
  from C7_cancel_without_handle_is_noop [of initWaitFor "frozen_world 0" "initRatePerMinuteLimiter 3 250"
      3 250 "initRatePerMinuteLimiter_once 3 250"] h1 h2 h3
  show ?thesis by blast
qed

text \<open>
  C9. With a limit of at least 2 an invocation that resets the window returns 0; hence a
  negative value is returned only when the limit is below 2.
\<close>

theorem C9_reset_yields_zero:
  "(2 \<le> rpm g \<and> performs_reset g w \<longrightarrow> fst (generator_next g w) = 0)
   \<and> (fst (generator_next g w) < 0 \<longrightarrow> rpm g < 2)"
  by (auto simp add: performs_reset_def generator_next_value split: if_splits)

theorem C9_reset_yields_zero_witness:
  "2 \<le> rpm (initTimeUntilNextMinute 3 250)
   \<and> performs_reset (initTimeUntilNextMinute 3 250) (ticking_world 300)
   \<and> fst (generator_next (initTimeUntilNextMinute 3 250) (ticking_world 300)) = 0
   \<and> fst (generator_next (initTimeUntilNextMinute 1 250) (ticking_world 300)) < 0
   \<and> rpm (initTimeUntilNextMinute 1 250) < 2"
proof -
  have h1: "2 \<le> rpm (initTimeUntilNextMinute 3 250)"
    by (simp add: initTimeUntilNextMinute_def)
  have h2: "performs_reset (initTimeUntilNextMinute 3 250) (ticking_world 300)"
    by code_simp
  have h3: "fst (generator_next (initTimeUntilNextMinute 1 250) (ticking_world 300)) < 0"
    by code_simp
  from C9_reset_yields_zero [of "initTimeUntilNextMinute 3 250" "ticking_world 300"] h1 h2
  have a: "fst (generator_next (initTimeUntilNextMinute 3 250) (ticking_world 300)) = 0"
    by blast
  from C9_reset_yields_zero [of "initTimeUntilNextMinute 1 250" "ticking_world 300"] h3
  have b: "rpm (initTimeUntilNextMinute 1 250) < 2"
    by blast
  from h1 h2 h3 a b show ?thesis by blast
qed

text \<open>
  C10, as stated: under a clock that never goes back every yielded value is at most the
  window length. With a window of -10 ms and a limit of 3, under a constant clock, every
  invocation resets the window and yields 0, which is more than -10.
\<close>

theorem C10_negative_window_counterexample:
  "mono (clock (frozen_world 0))
   \<and> readings_not_before_start 3 (initTimeUntilNextMinute 3 (- 10)) (frozen_world 0)
   \<and> fst (next_values 3 (initTimeUntilNextMinute 3 (- 10)) (frozen_world 0)) = [0, 0, 0]
   \<and> \<not> (0::int) \<le> - 10"
proof -
  have a: "mono (clock (frozen_world 0))"
    by (simp add: frozen_world_def mono_def)
  have b: "readings_not_before_start 3 (initTimeUntilNextMinute 3 (- 10)) (frozen_world 0)"
    by code_simp
  have c: "fst (next_values 3 (initTimeUntilNextMinute 3 (- 10)) (frozen_world 0)) = [0, 0, 0]"
    by code_simp
  from a b c show ?thesis by simp
qed

text \<open>
  C10, amended: when the window length is not negative and each clock reading of an
  invocation is at least the reading taken when the window start was last set, every value
  the tracker yields is at most the window length; and for a new tracker a clock that never
  goes back gives such readings.
\<close>

theorem C10_delay_at_most_window:
  assumes "0 \<le> minuteMs g"
  shows "(readings_not_before_start n g w \<longrightarrow> (\<forall>v\<in>set (fst (next_values n g w)). v \<le> minuteMs g))
     \<and> (mono (clock w) \<longrightarrow> readings_not_before_start n (initTimeUntilNextMinute r m) w)"
  using next_values_not_before_start [OF assms, of n w]
    mono_clock_not_before_start [of w "initTimeUntilNextMinute r m" n]
  by (simp add: initTimeUntilNextMinute_def)

theorem C10_delay_at_most_window_witness:
  "(0::int) \<le> minuteMs (initTimeUntilNextMinute 3 250)
   \<and> mono (clock (ticking_world 50))
   \<and> readings_not_before_start 8 (initTimeUntilNextMinute 3 250) (ticking_world 50)
   \<and> list_all (\<lambda>v. v \<le> 250)
        (fst (next_values 8 (initTimeUntilNextMinute 3 250) (ticking_world 50)))"
proof -
  have h1: "(0::int) \<le> minuteMs (initTimeUntilNextMinute 3 250)"
    by (simp add: initTimeUntilNextMinute_def)
  have h2: "mono (clock (ticking_world 50))"
    by (simp add: ticking_world_def mono_def)
  have m: "minuteMs (initTimeUntilNextMinute 3 250) = 250"
    by (simp add: initTimeUntilNextMinute_def)
  note t = C10_delay_at_most_window [OF h1, of 8 "ticking_world 50" 3 250]
  from t h2 have h3: "readings_not_before_start 8 (initTimeUntilNextMinute 3 250) (ticking_world 50)"
    by blast
  from t h3 have "\<forall>v\<in>set (fst (next_values 8 (initTimeUntilNextMinute 3 250) (ticking_world 50))).
      v \<le> minuteMs (initTimeUntilNextMinute 3 250)"
    by blast
  then have "list_all (\<lambda>v. v \<le> 250)
        (fst (next_values 8 (initTimeUntilNextMinute 3 250) (ticking_world 50)))"
    by (simp only: m list_all_iff)
  with h1 h2 h3 show ?thesis by blast
qed

end
